theory Spec2Isabelle
  imports Complex_Main
begin

section \<open>Label tools: row readers, text wrapping and label layout\<close>

text \<open>
  The repository holds three Python scripts that turn rows of a delimited text file into
  label pages: \<^verbatim>\<open>make_card_2x2_labels.py\<close> and \<^verbatim>\<open>make_pokemon_2x2_labels.py\<close> (2in x 2in
  card labels) and \<^verbatim>\<open>make_comic_4x3_labels.py\<close> (4in x 3in comic labels).

  Conventions of the embedding:
  \<^item> a Python \<^verbatim>\<open>str\<close> is a list of Unicode code points (\<open>nat\<close>), because the comic script
    handles characters beyond one byte (U+2011, U+2022, ...);
  \<^item> lengths and positions on the page are real numbers in points (Python floats; their
    rounding is not modelled);
  \<^item> the canvas of the drawing library is the list of the operations performed on it, in
    order;
  \<^item> what the libraries compute (string widths, line splitting, barcode geometry) and what
    the file system holds (whether the input exists, the rows the csv reader yields) are
    parameters of the model;
  \<^item> every \<^verbatim>\<open>raise\<close> and \<^verbatim>\<open>sys.exit\<close> is an \<open>Inl\<close> result.
\<close>

subsection \<open>Strings\<close>

type_synonym uchar = nat
type_synonym ustring = "uchar list"

definition ustr :: "string \<Rightarrow> ustring" where
  "ustr s = map of_char s"

text \<open>The characters Python's \<^verbatim>\<open>str.isspace\<close>, \<^verbatim>\<open>str.split()\<close> and \<^verbatim>\<open>str.strip()\<close> treat
  as whitespace.\<close>

definition is_space :: "uchar \<Rightarrow> bool" where
  "is_space c \<longleftrightarrow>
     (9 \<le> c \<and> c \<le> 13) \<or> (28 \<le> c \<and> c \<le> 32) \<or> c = 133 \<or> c = 160 \<or> c = 5760 \<or>
     (8192 \<le> c \<and> c \<le> 8202) \<or> c = 8232 \<or> c = 8233 \<or> c = 8239 \<or> c = 8287 \<or> c = 12288"

definition strip :: "ustring \<Rightarrow> ustring" where
  "strip s = rev (dropWhile is_space (rev (dropWhile is_space s)))"

text \<open>\<^verbatim>\<open>text.split()\<close>: the maximal runs of non-whitespace characters, in order.\<close>

fun split_from :: "ustring \<Rightarrow> ustring \<Rightarrow> ustring list" where
  "split_from cur [] = (if cur = [] then [] else [cur])"
| "split_from cur (c # cs) =
     (if is_space c then (if cur = [] then split_from [] cs else cur # split_from [] cs)
      else split_from (cur @ [c]) cs)"

definition split :: "ustring \<Rightarrow> ustring list" where
  "split s = split_from [] s"

subsection \<open>Errors and input files\<close>

text \<open>
  The ways a run ends early: the input path does not exist (\<^verbatim>\<open>SystemExit\<close> in the card
  scripts, \<^verbatim>\<open>sys.exit(1)\<close> in the comic script); \<^verbatim>\<open>csv.Error\<close> from the sniffer; the
  \<^verbatim>\<open>SystemExit\<close> of the card scripts when no rows were parsed; the \<^verbatim>\<open>ValueError\<close> of the comic
  script for a row of fewer than eight columns; the \<^verbatim>\<open>ValueError\<close> of unpacking a list of the
  wrong length; division by zero.
\<close>

datatype error =
    InputNotFound
  | CsvError
  | NoRowsParsed
  | SchemaError
  | UnpackError
  | ZeroDivisionError

text \<open>
  An input file as the scripts see it: whether the path exists, whether
  \<^verbatim>\<open>csv.Sniffer().sniff\<close> finds a delimiter in its first 4096 characters (card scripts only;
  it raises \<^verbatim>\<open>csv.Error\<close> otherwise), and the rows \<^verbatim>\<open>csv.reader\<close> yields.
\<close>

record input_file =
  file_exists :: bool
  sniffable :: bool
  csv_rows :: "ustring list list"

subsection \<open>Card labels: the row reader\<close>

text \<open>The dictionary \<^verbatim>\<open>read_rows\<close> builds has six fixed keys; it is a record here.\<close>

record card_row =
  title :: ustring
  b1 :: ustring
  b2 :: ustring
  price :: ustring
  inv :: ustring
  barcode :: ustring

text \<open>The test for a row to skip, \<^verbatim>\<open>not raw or all(not x.strip() for x in raw)\<close>; the comic
  script writes \<^verbatim>\<open>(cell or "").strip()\<close>, which is \<^verbatim>\<open>cell.strip()\<close> on the strings the csv
  reader yields.\<close>

definition is_blank_row :: "ustring list \<Rightarrow> bool" where
  "is_blank_row raw \<longleftrightarrow> raw = [] \<or> list_all (\<lambda>x. strip x = []) raw"

text \<open>\<^verbatim>\<open>while len(raw) < 7: raw.append("")\<close>\<close>

function pad_row :: "ustring list \<Rightarrow> ustring list" where
  "pad_row raw = (if length raw < 7 then pad_row (raw @ [[]]) else raw)"
  by pat_completeness auto
termination
  by (relation "measure (\<lambda>raw. 7 - length raw)") auto

declare pad_row.simps [simp del]

text \<open>The body of the reader's loop for a row that is not blank: pad, slice, strip, unpack
  into seven names (a \<^verbatim>\<open>ValueError\<close> if there were not seven), build the dictionary.\<close>

definition row_record :: "ustring list \<Rightarrow> error + card_row" where
  "row_record raw =
     (case map strip (take 7 (pad_row raw)) of
        [title', b1', b2', price_src, final_price, inv_id, barcode_val] \<Rightarrow>
          Inr \<lparr>title = title', b1 = b1', b2 = b2', price = final_price, inv = inv_id,
               barcode = barcode_val\<rparr>
      | _ \<Rightarrow> Inl UnpackError)"

fun read_loop :: "ustring list list \<Rightarrow> card_row list \<Rightarrow> error + card_row list" where
  "read_loop [] rows = Inr rows"
| "read_loop (raw # rest) rows =
     (if is_blank_row raw then read_loop rest rows
      else case row_record raw of
             Inl e \<Rightarrow> Inl e
           | Inr r \<Rightarrow> read_loop rest (rows @ [r]))"

definition read_rows :: "input_file \<Rightarrow> error + card_row list" where
  "read_rows f = (if \<not> sniffable f then Inl CsvError else read_loop (csv_rows f) [])"

subsection \<open>The canvas and the libraries\<close>

datatype draw_op =
    SetFillColor string
  | SetStrokeColor string
  | SetLineWidth real
  | SetFont string nat
  | DrawString real real ustring
  | DrawCentredString real real ustring
  | SaveState
  | Translate real real
  | Scale real real
  | DrawBarcode ustring real real
  | RestoreState
  | ShowPage

type_synonym canvas = "draw_op list"

text \<open>The size a \<^verbatim>\<open>code128.Code128\<close> object reports (\<^verbatim>\<open>bc.width\<close>, \<^verbatim>\<open>bc.height\<close>).\<close>

record code128_sym =
  sym_width :: real
  sym_height :: real

text \<open>
  The library functions the scripts call: \<^verbatim>\<open>canvas.stringWidth(text, fontName, fontSize)\<close>,
  \<^verbatim>\<open>simpleSplit(text, fontName, fontSize, maxWidth)\<close> and the constructor
  \<^verbatim>\<open>code128.Code128(value, barHeight=..., barWidth=...)\<close> (\<open>None\<close> for a \<^verbatim>\<open>barWidth\<close> left at
  the library's default).
\<close>

record env =
  stringWidth :: "ustring \<Rightarrow> string \<Rightarrow> nat \<Rightarrow> real"
  simpleSplit :: "ustring \<Rightarrow> string \<Rightarrow> nat \<Rightarrow> real \<Rightarrow> ustring list"
  code128 :: "ustring \<Rightarrow> real \<Rightarrow> real option \<Rightarrow> code128_sym"

definition inch :: real where
  "inch = 72"

definition bullet_glyph :: uchar where
  "bullet_glyph = 8226"

subsection \<open>Card labels: layout\<close>

definition card_PAGE_W :: real where "card_PAGE_W = 2 * inch"
definition card_PAGE_H :: real where "card_PAGE_H = 2 * inch"
definition TITLE_FONT :: string where "TITLE_FONT = ''Helvetica-Bold''"
definition BODY_FONT :: string where "BODY_FONT = ''Helvetica''"
definition TITLE_SIZE :: nat where "TITLE_SIZE = 10"
definition BODY_SIZE :: nat where "BODY_SIZE = 9"
definition LINE_GAP :: real where "LINE_GAP = 3"
definition TOP_PADDING :: real where "TOP_PADDING = 8"
definition LEFT_MARGIN :: real where "LEFT_MARGIN = 8"
definition RIGHT_MARGIN :: real where "RIGHT_MARGIN = 8"
definition BARCODE_HEIGHT :: real where "BARCODE_HEIGHT = 0.45 * inch"
definition BAR_GAP :: real where "BAR_GAP = 6"
definition TEXT_UNDER_BAR_GAP :: real where "TEXT_UNDER_BAR_GAP = 2"

text \<open>\<^verbatim>\<open>for i, line in enumerate(title_lines): y -= TITLE_SIZE if i == 0 else (TITLE_SIZE + 1);
  c.drawString(x, y, line)\<close>\<close>

fun title_loop :: "real \<Rightarrow> nat \<Rightarrow> ustring list \<Rightarrow> canvas \<times> real \<Rightarrow> canvas \<times> real" where
  "title_loop x i [] st = st"
| "title_loop x i (line # rest) (c, y) =
     (let y' = y - (if i = 0 then real TITLE_SIZE else real (TITLE_SIZE + 1))
      in title_loop x (Suc i) rest (c @ [DrawString x y' line], y'))"

text \<open>\<^verbatim>\<open>for i, line in enumerate(lines): y -= (BODY_SIZE + (LINE_GAP if i == len(lines)-1 else 1));
  c.drawString(x, y, line)\<close>, with \<open>n\<close> for \<^verbatim>\<open>len(lines)\<close>.\<close>

fun body_loop :: "real \<Rightarrow> nat \<Rightarrow> nat \<Rightarrow> ustring list \<Rightarrow> canvas \<times> real \<Rightarrow> canvas \<times> real" where
  "body_loop x n i [] st = st"
| "body_loop x n i (line # rest) (c, y) =
     (let y' = y - (real BODY_SIZE + (if int i = int n - 1 then LINE_GAP else 1))
      in body_loop x n (Suc i) rest (c @ [DrawString x y' line], y'))"

definition bullet :: "ustring \<Rightarrow> ustring" where
  "bullet line = [bullet_glyph, 32] @ line"

fun bullets_loop :: "env \<Rightarrow> real \<Rightarrow> real \<Rightarrow> ustring list \<Rightarrow> canvas \<times> real \<Rightarrow> canvas \<times> real" where
  "bullets_loop E x usable_w [] st = st"
| "bullets_loop E x usable_w (text # rest) st =
     (let lines = simpleSplit E text BODY_FONT BODY_SIZE usable_w
      in bullets_loop E x usable_w rest (body_loop x (length lines) 0 lines st))"

text \<open>The description block of \<^verbatim>\<open>draw_label\<close> (title and bullets), up to \<^verbatim>\<open>y -= BAR_GAP\<close>:
  the canvas and the cursor \<open>y\<close> after it.\<close>

definition card_text :: "env \<Rightarrow> card_row \<Rightarrow> canvas \<Rightarrow> canvas \<times> real" where
  "card_text E row c =
     (let x = LEFT_MARGIN;
          usable_w = card_PAGE_W - LEFT_MARGIN - RIGHT_MARGIN;
          y = card_PAGE_H - TOP_PADDING;
          c1 = c @ [SetFont TITLE_FONT TITLE_SIZE];
          title_lines = simpleSplit E (title row) TITLE_FONT TITLE_SIZE usable_w;
          st1 = title_loop x 0 title_lines (c1, y);
          c2 = fst st1 @ [SetFont BODY_FONT BODY_SIZE];
          bullets = [bullet (b1 row), bullet (b2 row),
                     bullet (ustr ''Price: '' @ price row),
                     bullet (ustr ''ID: '' @ inv row)];
          st2 = bullets_loop E x usable_w bullets (c2, snd st1)
      in (fst st2, snd st2 - BAR_GAP))"

text \<open>The barcode block and the footer of \<^verbatim>\<open>draw_label\<close>.\<close>

definition card_barcode :: "env \<Rightarrow> card_row \<Rightarrow> canvas \<times> real \<Rightarrow> canvas" where
  "card_barcode E row st =
     (let c = fst st; y = snd st;
          bc = code128 E (barcode row) BARCODE_HEIGHT (Some (0.0125 * inch));
          bc_w = sym_width bc;
          bc_x = (card_PAGE_W - bc_w) / 2;
          bc_y = max 8 (y - BARCODE_HEIGHT);
          c1 = c @ [DrawBarcode (barcode row) bc_x bc_y];
          footer_text = inv row @ ustr ''    '' @ price row
      in c1 @ [SetFont TITLE_FONT BODY_SIZE,
               DrawCentredString (card_PAGE_W / 2)
                 (bc_y - TEXT_UNDER_BAR_GAP - real BODY_SIZE) footer_text])"

text \<open>\<^verbatim>\<open>draw_label\<close> of \<^verbatim>\<open>make_card_2x2_labels.py\<close>.\<close>

definition card_draw_label :: "env \<Rightarrow> canvas \<Rightarrow> card_row \<Rightarrow> canvas" where
  "card_draw_label E c row =
     card_barcode E row
       (card_text E row (c @ [SetFillColor ''black'', SetStrokeColor ''black'']))"

text \<open>\<^verbatim>\<open>draw_label\<close> of \<^verbatim>\<open>make_pokemon_2x2_labels.py\<close>: the same, after setting the line
  width.\<close>

definition pokemon_draw_label :: "env \<Rightarrow> canvas \<Rightarrow> card_row \<Rightarrow> canvas" where
  "pokemon_draw_label E c row =
     card_barcode E row
       (card_text E row
          (c @ [SetFillColor ''black'', SetStrokeColor ''black'', SetLineWidth 0.5]))"

text \<open>\<^verbatim>\<open>for row in rows: draw_label(c, row); c.showPage()\<close>\<close>

fun card_pages :: "env \<Rightarrow> card_row list \<Rightarrow> canvas \<Rightarrow> canvas" where
  "card_pages E [] c = c"
| "card_pages E (row # rest) c = card_pages E rest (card_draw_label E c row @ [ShowPage])"

text \<open>
  \<^verbatim>\<open>main\<close> of \<^verbatim>\<open>make_card_2x2_labels.py\<close>. \<open>Inr c\<close>: \<^verbatim>\<open>c.save()\<close> wrote the document with the
  operations \<open>c\<close>. \<open>Inl e\<close>: the run ended with \<open>e\<close>; every such exit is before the output
  directory and the canvas are created, so nothing is written.
\<close>

definition card_main :: "env \<Rightarrow> input_file \<Rightarrow> error + canvas" where
  "card_main E f =
     (if \<not> file_exists f then Inl InputNotFound
      else case read_rows f of
             Inl e \<Rightarrow> Inl e
           | Inr rows \<Rightarrow>
               if rows = [] then Inl NoRowsParsed
               else Inr (card_pages E rows []))"

subsection \<open>Comic labels: normalisation and wrapping\<close>

definition comic_PAGE_W :: real where "comic_PAGE_W = 4 * inch"
definition comic_PAGE_H :: real where "comic_PAGE_H = 3 * inch"
definition MARGIN :: real where "MARGIN = 0.25 * inch"
definition MAX_TEXT_W :: real where "MAX_TEXT_W = comic_PAGE_W - 2 * MARGIN"

text \<open>\<^verbatim>\<open>s.replace(old, new)\<close> for one-character \<^verbatim>\<open>old\<close> and \<^verbatim>\<open>new\<close>.\<close>

definition replace :: "uchar \<Rightarrow> uchar \<Rightarrow> ustring \<Rightarrow> ustring" where
  "replace old new s = map (\<lambda>c. if c = old then new else c) s"

definition normalize_text :: "ustring \<Rightarrow> ustring" where
  "normalize_text s =
     (if s = [] then []
      else let s1 = replace 8209 45 s;
               s2 = replace 8211 45 s1;
               s3 = replace 8212 45 s2;
               s4 = replace 160 32 s3;
               s5 = replace 8208 45 s4
           in s5)"

text \<open>The loop of \<^verbatim>\<open>wrap_text\<close> over the words; its state is the canvas, the cursor \<open>y\<close> and
  the current \<^verbatim>\<open>line\<close>.\<close>

fun wrap_loop ::
  "env \<Rightarrow> real \<Rightarrow> real \<Rightarrow> real \<Rightarrow> string \<Rightarrow> nat \<Rightarrow> ustring list \<Rightarrow>
   canvas \<times> real \<times> ustring \<Rightarrow> canvas \<times> real \<times> ustring" where
  "wrap_loop E x width leading font_name font_size [] st = st"
| "wrap_loop E x width leading font_name font_size (w # ws) (c, y, line) =
     (let test = strip (line @ [32] @ w)
      in if stringWidth E test font_name font_size \<le> width
         then wrap_loop E x width leading font_name font_size ws (c, y, test)
         else wrap_loop E x width leading font_name font_size ws
                (c @ [SetFont font_name font_size, DrawString x y line], y - leading, w))"

text \<open>\<^verbatim>\<open>wrap_text(canvas_obj, text, x, y, width, leading, font_name, font_size)\<close>: the canvas
  after drawing and the new \<open>y\<close>.\<close>

definition wrap_text ::
  "env \<Rightarrow> canvas \<Rightarrow> ustring \<Rightarrow> real \<Rightarrow> real \<Rightarrow> real \<Rightarrow> real \<Rightarrow> string \<Rightarrow> nat \<Rightarrow> canvas \<times> real" where
  "wrap_text E c text x y width leading font_name font_size =
     (case wrap_loop E x width leading font_name font_size (split text) (c, y, []) of
        (c', y', line) \<Rightarrow>
          if line \<noteq> [] then (c' @ [SetFont font_name font_size, DrawString x y' line], y' - leading)
          else (c', y'))"

subsection \<open>Comic labels: layout\<close>

text \<open>\<^verbatim>\<open>bullets = [b for b in [b1, b2, b3] if b and b.strip()]\<close> and the loop over them.\<close>

definition keep_bullet :: "ustring \<Rightarrow> bool" where
  "keep_bullet b \<longleftrightarrow> b \<noteq> [] \<and> strip b \<noteq> []"

fun comic_bullets_loop :: "env \<Rightarrow> real \<Rightarrow> ustring list \<Rightarrow> canvas \<times> real \<Rightarrow> canvas \<times> real" where
  "comic_bullets_loop E x [] st = st"
| "comic_bullets_loop E x (b # rest) (c, y) =
     (let line = [bullet_glyph, 32] @ strip b
      in case wrap_text E c line x y MAX_TEXT_W 11 ''Helvetica'' 11 of
           (c', y') \<Rightarrow> comic_bullets_loop E x rest (c', y' - 3))"

definition comic_bullets :: "env \<Rightarrow> real \<Rightarrow> ustring list \<Rightarrow> canvas \<times> real \<Rightarrow> canvas \<times> real" where
  "comic_bullets E x bs st = comic_bullets_loop E x (filter keep_bullet bs) st"

definition comic_publisher :: "env \<Rightarrow> real \<Rightarrow> ustring \<Rightarrow> canvas \<times> real \<Rightarrow> canvas \<times> real" where
  "comic_publisher E x publisher st =
     (if strip publisher \<noteq> [] then
        case wrap_text E (fst st) ([bullet_glyph] @ ustr '' Publisher: '' @ strip publisher)
               x (snd st) MAX_TEXT_W 11 ''Helvetica-Oblique'' 11 of
          (c', y') \<Rightarrow> (c', y' - 3)
      else st)"

text \<open>Lines 71 to 81 of the script: the bullets, then the publisher.\<close>

definition comic_body ::
  "env \<Rightarrow> real \<Rightarrow> ustring \<Rightarrow> ustring \<Rightarrow> ustring \<Rightarrow> ustring \<Rightarrow> canvas \<times> real \<Rightarrow> canvas \<times> real" where
  "comic_body E x b1' b2' b3' publisher st =
     comic_publisher E x publisher
       (comic_bullets E x [b1', b2', b3'] (fst st @ [SetFont ''Helvetica'' 11], snd st))"

text \<open>The barcode of the comic label: scaled, centred, drawn inside a saved graphics state.
  The division raises \<^verbatim>\<open>ZeroDivisionError\<close> for a symbol of width zero. The result is the
  canvas and \<^verbatim>\<open>bc_y\<close>.\<close>

definition comic_barcode :: "env \<Rightarrow> ustring \<Rightarrow> canvas \<times> real \<Rightarrow> error + canvas \<times> real" where
  "comic_barcode E barcode_num st =
     (let c = fst st; y = snd st;
          target_w = 2.6 * inch;
          bc = code128 E barcode_num (0.30 * inch) None
      in if sym_width bc = 0 then Inl ZeroDivisionError
         else let scale = min (target_w / sym_width bc) 1.8;
                  bc_x = (comic_PAGE_W - sym_width bc * scale) / 2.0;
                  bc_y = y - sym_height bc * scale
              in Inr (c @ [SaveState, Translate bc_x bc_y, Scale scale scale,
                           DrawBarcode barcode_num 0 0, RestoreState], bc_y))"

text \<open>The text of the comic label, from the title down to the barcode number (lines 61 to
  100 of the script): the canvas and the cursor \<open>y\<close> after it.\<close>

definition comic_text ::
  "env \<Rightarrow> ustring \<Rightarrow> ustring \<Rightarrow> ustring \<Rightarrow> ustring \<Rightarrow> ustring \<Rightarrow> ustring \<Rightarrow> ustring \<Rightarrow> ustring \<Rightarrow>
   canvas \<Rightarrow> canvas \<times> real" where
  "comic_text E title' b1' b2' b3' publisher price_display inv_id barcode_num c =
     (let x = MARGIN;
          y = comic_PAGE_H - MARGIN;
          c1 = c @ [SetFont ''Helvetica-Bold'' 12];
          st1 = wrap_text E c1 title' x y MAX_TEXT_W 13 ''Helvetica-Bold'' 12;
          y1 = snd st1 + 2 - 3;
          st2 = comic_body E x b1' b2' b3' publisher (fst st1, y1);
          y2 = snd st2;
          price_x = x + stringWidth E ([bullet_glyph] @ ustr '' Price: '') ''Helvetica-Bold'' 12;
          c3 = fst st2 @ [SetFont ''Helvetica-Bold'' 12,
                          DrawString x y2 ([bullet_glyph] @ ustr '' Price: ''),
                          DrawString price_x y2 price_display];
          y3 = y2 - 15;
          c4 = c3 @ [SetFont ''Helvetica-Bold'' 12,
                     DrawString x y3 (ustr ''Inventory ID: '' @ inv_id)];
          y4 = y3 - 12 - 6;
          c5 = c4 @ [SetFont ''Helvetica'' 9,
                     DrawCentredString (comic_PAGE_W / 2.0) y4 barcode_num];
          y5 = y4 - 6
      in (c5, y5))"

text \<open>\<^verbatim>\<open>draw_label(c, row)\<close> of the comic script: the fields normalised and unpacked
  (anything but eight fields raises \<^verbatim>\<open>ValueError\<close>), the text, the barcode, the bottom
  line.\<close>

definition comic_draw_label :: "env \<Rightarrow> canvas \<Rightarrow> ustring list \<Rightarrow> error + canvas" where
  "comic_draw_label E c row =
     (case map normalize_text row of
        [title', b1', b2', b3', publisher, price', inv_id, barcode_num] \<Rightarrow>
          (let price_display = strip price';
               st = comic_text E title' b1' b2' b3' publisher price_display inv_id barcode_num c
           in case comic_barcode E barcode_num st of
                Inl e \<Rightarrow> Inl e
              | Inr (c6, bc_y) \<Rightarrow>
                  Inr (c6 @ [SetFont ''Helvetica-Bold'' 10,
                             DrawCentredString (comic_PAGE_W / 2.0) (bc_y - 12)
                               (inv_id @ ustr ''   '' @ price_display)]))
      | _ \<Rightarrow> Inl UnpackError)"

text \<open>The loop of \<^verbatim>\<open>main\<close> over the rows of the reader: a blank row is skipped, a row of
  fewer than eight fields raises, any other row is drawn from its first eight fields and
  its page is finished.\<close>

fun comic_loop :: "env \<Rightarrow> ustring list list \<Rightarrow> canvas \<Rightarrow> error + canvas" where
  "comic_loop E [] c = Inr c"
| "comic_loop E (row # rest) c =
     (if is_blank_row row then comic_loop E rest c
      else if length row < 8 then Inl SchemaError
      else case comic_draw_label E c (take 8 row) of
             Inl e \<Rightarrow> Inl e
           | Inr c' \<Rightarrow> comic_loop E rest (c' @ [ShowPage]))"

text \<open>
  \<^verbatim>\<open>main\<close> of the comic script. \<open>Inr c\<close>: \<^verbatim>\<open>c.save()\<close> wrote the document with the operations
  \<open>c\<close>. \<open>Inl e\<close>: the run ended with \<open>e\<close> before \<^verbatim>\<open>c.save()\<close>, so no document is written.
\<close>

definition comic_main :: "env \<Rightarrow> input_file \<Rightarrow> error + canvas" where
  "comic_main E f =
     (if \<not> file_exists f then Inl InputNotFound
      else comic_loop E (csv_rows f) [])"

section \<open>Notions used to state the properties\<close>

subsection \<open>Greedy word wrapping, in the words of the specification\<close>

text \<open>The tentative line: the current line plus the next word, a space between them unless
  the current line is empty.\<close>

definition join_word :: "ustring \<Rightarrow> ustring \<Rightarrow> ustring" where
  "join_word cur w = (if cur = [] then w else cur @ [32] @ w)"

text \<open>
  The greedy word-boundary algorithm as the specification words it: words are accumulated
  into the current line while the tentative line fits; when it does not fit, the current
  line is flushed as an output line and a new current line starts with the overflowing
  word; the final non-empty current line is emitted last.
\<close>

fun greedy_lines :: "(ustring \<Rightarrow> bool) \<Rightarrow> ustring \<Rightarrow> ustring list \<Rightarrow> ustring list" where
  "greedy_lines fits cur [] = (if cur \<noteq> [] then [cur] else [])"
| "greedy_lines fits cur (w # ws) =
     (if fits (join_word cur w) then greedy_lines fits (join_word cur w) ws
      else cur # greedy_lines fits w ws)"

text \<open>Drawing a sequence of lines downwards from \<open>y\<close>, one \<open>leading\<close> apart.\<close>

fun line_ops :: "real \<Rightarrow> real \<Rightarrow> real \<Rightarrow> string \<Rightarrow> nat \<Rightarrow> ustring list \<Rightarrow> canvas" where
  "line_ops x y leading font_name font_size [] = []"
| "line_ops x y leading font_name font_size (l # ls) =
     SetFont font_name font_size # DrawString x y l #
     line_ops x (y - leading) leading font_name font_size ls"

text \<open>The strings a canvas draws left-aligned, in order.\<close>

fun drawn_lines :: "canvas \<Rightarrow> ustring list" where
  "drawn_lines [] = []"
| "drawn_lines (DrawString x y t # ops) = t # drawn_lines ops"
| "drawn_lines (op # ops) = drawn_lines ops"

text \<open>A word as \<^verbatim>\<open>split\<close> yields it has no whitespace at either end.\<close>

definition clean :: "ustring \<Rightarrow> bool" where
  "clean w \<longleftrightarrow> w \<noteq> [] \<and> \<not> is_space (hd w) \<and> \<not> is_space (last w)"

subsection \<open>Readers\<close>

text \<open>A row as the specification describes the card reader's treatment: right-padded with
  empty strings to at least seven fields, sliced to the first seven, each field stripped.\<close>

definition padded_fields :: "ustring list \<Rightarrow> ustring list" where
  "padded_fields raw = map strip (take 7 (raw @ replicate (7 - length raw) []))"

text \<open>The record of seven fields, the fourth (the price source) dropped.\<close>

definition record_of_fields :: "ustring list \<Rightarrow> card_row" where
  "record_of_fields fs =
     \<lparr>title = fs ! 0, b1 = fs ! 1, b2 = fs ! 2, price = fs ! 4, inv = fs ! 5, barcode = fs ! 6\<rparr>"

definition nonblank_rows :: "ustring list list \<Rightarrow> ustring list list" where
  "nonblank_rows rows = filter (\<lambda>raw. \<not> is_blank_row raw) rows"

text \<open>Rendering a sequence of comic records, one page each, in order.\<close>

fun render_records :: "env \<Rightarrow> ustring list list \<Rightarrow> canvas \<Rightarrow> error + canvas" where
  "render_records E [] c = Inr c"
| "render_records E (r # rs) c =
     (case comic_draw_label E c r of
        Inl e \<Rightarrow> Inl e
      | Inr c' \<Rightarrow> render_records E rs (c' @ [ShowPage]))"

definition page_count :: "canvas \<Rightarrow> nat" where
  "page_count c = length (filter (\<lambda>op. op = ShowPage) c)"

subsection \<open>Layout\<close>

text \<open>The vertical positions of the barcodes a canvas draws.\<close>

fun barcode_ys :: "canvas \<Rightarrow> real list" where
  "barcode_ys [] = []"
| "barcode_ys (DrawBarcode v x y # ops) = y # barcode_ys ops"
| "barcode_ys (op # ops) = barcode_ys ops"

text \<open>The cursor \<open>y\<close> of a card label when its barcode is placed.\<close>

definition card_cursor :: "env \<Rightarrow> card_row \<Rightarrow> real" where
  "card_cursor E row = snd (card_text E row [])"

text \<open>The operations of the comic label's barcode block.\<close>

fun is_barcode_op :: "draw_op \<Rightarrow> bool" where
  "is_barcode_op SaveState = True"
| "is_barcode_op (Translate x y) = True"
| "is_barcode_op (Scale sx sy) = True"
| "is_barcode_op (DrawBarcode v x y) = True"
| "is_barcode_op RestoreState = True"
| "is_barcode_op op = False"

text \<open>A selection of operations that contains no text operation.\<close>

definition text_free :: "(draw_op \<Rightarrow> bool) \<Rightarrow> bool" where
  "text_free P \<longleftrightarrow> (\<forall>f n. \<not> P (SetFont f n)) \<and> (\<forall>x y t. \<not> P (DrawString x y t)) \<and>
     (\<forall>x y t. \<not> P (DrawCentredString x y t))"

text \<open>The scale factor of the specification: the target width of 2.6 inches over the native
  width of the symbol, capped at 1.8.\<close>

definition comic_scale :: "real \<Rightarrow> real" where
  "comic_scale w = min (2.6 * inch / w) 1.8"

subsection \<open>Bullets and publisher of the comic label\<close>

text \<open>Empty or whitespace only.\<close>

definition is_blank :: "ustring \<Rightarrow> bool" where
  "is_blank s \<longleftrightarrow> list_all is_space s"

text \<open>One wrapped item of the body, in a font, followed by the gap of 3 points.\<close>

definition draw_item :: "env \<Rightarrow> real \<Rightarrow> string \<times> ustring \<Rightarrow> canvas \<times> real \<Rightarrow> canvas \<times> real" where
  "draw_item E x item st =
     (case wrap_text E (fst st) (snd item) x (snd st) MAX_TEXT_W 11 (fst item) 11 of
        (c', y') \<Rightarrow> (c', y' - 3))"

text \<open>The items of the body: the bullets that are not blank, in order, then the publisher if
  it is not blank; each stripped and prefixed with the bullet glyph.\<close>

definition body_items :: "ustring \<Rightarrow> ustring \<Rightarrow> ustring \<Rightarrow> ustring \<Rightarrow> (string \<times> ustring) list" where
  "body_items b1' b2' b3' publisher =
     map (\<lambda>b. (''Helvetica'', [bullet_glyph, 32] @ strip b))
       (filter (\<lambda>b. \<not> is_blank b) [b1', b2', b3']) @
     (if is_blank publisher then []
      else [(''Helvetica-Oblique'', [bullet_glyph] @ ustr '' Publisher: '' @ strip publisher)])"

subsection \<open>Character normalisation\<close>

text \<open>The normalisation of one character: U+2011, U+2013, U+2014 and U+2010 become the
  hyphen-minus, U+00A0 becomes the space.\<close>

definition norm_char :: "uchar \<Rightarrow> uchar" where
  "norm_char ch =
     (if ch = 8209 \<or> ch = 8211 \<or> ch = 8212 \<or> ch = 8208 then 45
      else if ch = 160 then 32 else ch)"

text \<open>\<open>s'\<close> is \<open>s\<close> with some (any, all or none) of its characters replaced by their
  normalisation.\<close>

definition ascii_variant :: "ustring \<Rightarrow> ustring \<Rightarrow> bool" where
  "ascii_variant s s' \<longleftrightarrow> list_all2 (\<lambda>a b. b = a \<or> b = norm_char a) s s'"

subsection \<open>Sample inputs\<close>

text \<open>A sample of the libraries, for concrete evaluations: every glyph is half as wide as
  the font size, \<^verbatim>\<open>simpleSplit\<close> puts one character on a line, a barcode symbol is 36 points
  of quiet zone plus 11 points per character wide and as high as its bars.\<close>

definition sample_env :: env where
  "sample_env =
     \<lparr>stringWidth = (\<lambda>s font_name font_size. real (length s * font_size) / 2),
      simpleSplit = (\<lambda>text font_name font_size max_width. map (\<lambda>ch. [ch]) text),
      code128 = (\<lambda>v bar_height bar_width.
                   \<lparr>sym_width = 36 + 11 * real (length v), sym_height = bar_height\<rparr>)\<rparr>"

definition sample_text :: ustring where
  "sample_text = ustr ''aaa bbb  cccccccccc''"

definition long_title_row :: card_row where
  "long_title_row = \<lparr>title = ustr ''Charizard Holo Rare'', b1 = ustr ''Holo'', b2 = ustr ''1st'',
     price = ustr ''299.99'', inv = ustr ''INV-001'', barcode = ustr ''012345678905''\<rparr>"

definition charizard_row :: "ustring list" where
  "charizard_row = [ustr ''Charizard'', ustr ''Holo Rare'', ustr ''1st Edition'', ustr ''eBay'',
     ustr ''299.99'', ustr ''INV-001'', ustr ''012345678905'']"

definition comic_row :: "ustring list" where
  "comic_row = [ustr ''Batman'', ustr ''Year One'', ustr '' '', [], ustr ''DC'', ustr ''9.99'',
                ustr ''INV-7'', ustr ''12345'']"

definition short_row_file :: input_file where
  "short_row_file = \<lparr>file_exists = True, sniffable = True, csv_rows = [comic_row, charizard_row]\<rparr>"

definition blank_file :: input_file where
  "blank_file = \<lparr>file_exists = True, sniffable = True, csv_rows = [[], [ustr '' '', []]]\<rparr>"

definition comic_file :: input_file where
  "comic_file = \<lparr>file_exists = True, sniffable = True,
     csv_rows = [comic_row, [], comic_row @ [ustr ''extra'']]\<rparr>"

definition dash_row :: "ustring list" where
  "dash_row = [[66, 8211, 77], [8209], [160], [], ustr ''DC'', ustr ''9.99'', ustr ''INV-7'',
               ustr ''12345'']"

definition ascii_row :: "ustring list" where
  "ascii_row = [[66, 45, 77], [8209], [32], [], ustr ''DC'', ustr ''9.99'', ustr ''INV-7'',
                ustr ''12345'']"

section \<open>Properties\<close>

subsection \<open>Strings\<close>

lemma dropWhile_all_Nil: "(\<forall>x\<in>set (dropWhile P s). P x) \<Longrightarrow> dropWhile P s = []"
  using hd_dropWhile [of P s] hd_in_set [of "dropWhile P s"] by blast

lemma strip_Nil_iff: "strip s = [] \<longleftrightarrow> list_all is_space s"
proof
  assume "strip s = []"
  then have "\<forall>x\<in>set (dropWhile is_space s). is_space x"
    by (simp add: strip_def)
  then have "dropWhile is_space s = []" by (rule dropWhile_all_Nil)
  then show "list_all is_space s" by (simp add: list_all_iff)
next
  assume "list_all is_space s"
  then have "dropWhile is_space s = []" by (simp add: list_all_iff)
  then show "strip s = []" by (simp add: strip_def del: dropWhile_eq_Nil_conv)
qed

lemma strip_clean:
  assumes "s \<noteq> []" "\<not> is_space (hd s)" "\<not> is_space (last s)"
  shows "strip s = s"
proof -
  from assms have "dropWhile is_space s = s" by (cases s) auto
  moreover from assms have "dropWhile is_space (rev s) = rev s"
    by (cases "rev s") (auto simp: last_rev hd_rev)
  ultimately show ?thesis by (simp add: strip_def)
qed

lemma strip_join:
  assumes "clean w" "line = [] \<or> clean line"
  shows "strip (line @ [32] @ w) = join_word line w"
proof (cases "line = []")
  case True
  have "is_space 32" by (simp add: is_space_def)
  then have "dropWhile is_space (32 # w) = w"
    using assms(1) by (cases w) (auto simp: clean_def)
  moreover have "rev (dropWhile is_space (rev w)) = w"
    using assms(1) by (cases "rev w") (auto simp: clean_def last_rev hd_rev)
  ultimately show ?thesis using True by (simp add: strip_def join_word_def)
next
  case False
  with assms have "clean line" by simp
  then have "strip (line @ [32] @ w) = line @ [32] @ w"
    using assms(1) by (intro strip_clean) (auto simp: clean_def)
  then show ?thesis using False by (simp add: join_word_def)
qed

lemma clean_join: "clean w \<Longrightarrow> line = [] \<or> clean line \<Longrightarrow> clean (join_word line w)"
  by (auto simp: clean_def join_word_def)

lemma split_from_clean:
  "list_all (\<lambda>c. \<not> is_space c) cur \<Longrightarrow> w \<in> set (split_from cur s) \<Longrightarrow>
   w \<noteq> [] \<and> list_all (\<lambda>c. \<not> is_space c) w"
  by (induction cur s rule: split_from.induct) (auto split: if_splits)

lemma split_clean: "w \<in> set (split s) \<Longrightarrow> clean w"
proof -
  assume "w \<in> set (split s)"
  then have "w \<noteq> [] \<and> list_all (\<lambda>c. \<not> is_space c) w"
    using split_from_clean [of "[]" w s] by (simp add: split_def)
  then show "clean w" by (cases w) (auto simp: clean_def list_all_iff)
qed

subsection \<open>The card reader\<close>

lemma pad_row_eq: "pad_row raw = raw @ replicate (7 - length raw) []"
proof (induction raw rule: pad_row.induct)
  case (1 raw)
  show ?case
  proof (cases "length raw < 7")
    case True
    then have "pad_row raw = pad_row (raw @ [[]])" by (subst pad_row.simps) simp
    also have "\<dots> = (raw @ [[]]) @ replicate (7 - length (raw @ [[]])) []"
      using 1 True by simp
    also have "\<dots> = raw @ replicate (7 - length raw) []"
      using True by (simp add: replicate_app_Cons_same Suc_diff_Suc flip: replicate_Suc)
    finally show ?thesis .
  next
    case False
    then show ?thesis by (subst pad_row.simps) simp
  qed
qed

lemma length_padded_fields: "length (padded_fields raw) = 7"
  by (simp add: padded_fields_def)

lemma list7: "length xs = 7 \<Longrightarrow> xs = [xs ! 0, xs ! 1, xs ! 2, xs ! 3, xs ! 4, xs ! 5, xs ! 6]"
  by (auto simp: list_eq_iff_nth_eq less_Suc_eq numeral_eq_Suc nth_Cons')


lemma row_record_eq: "row_record raw = Inr (record_of_fields (padded_fields raw))"
proof -
  let ?fs = "padded_fields raw"
  have "map strip (take 7 (pad_row raw)) = ?fs"
    by (simp add: pad_row_eq padded_fields_def)
  moreover have "?fs = [?fs ! 0, ?fs ! 1, ?fs ! 2, ?fs ! 3, ?fs ! 4, ?fs ! 5, ?fs ! 6]"
    by (rule list7) (rule length_padded_fields)
  ultimately have "map strip (take 7 (pad_row raw)) = [?fs ! 0, ?fs ! 1, ?fs ! 2, ?fs ! 3, ?fs ! 4, ?fs ! 5, ?fs ! 6]"
    by simp
  then show ?thesis
    unfolding row_record_def record_of_fields_def by (simp only: list.case)
qed

lemma read_loop_eq:
  "read_loop rows acc = Inr (acc @ map (\<lambda>raw. record_of_fields (padded_fields raw)) (nonblank_rows rows))"
  by (induction rows arbitrary: acc) (simp_all add: nonblank_rows_def row_record_eq)

lemma read_rows_eq: 
  "sniffable f \<Longrightarrow> read_rows f = Inr (map (\<lambda>raw. record_of_fields (padded_fields raw)) (nonblank_rows (csv_rows f)))"
  by (simp add: read_rows_def read_loop_eq)



subsection \<open>Text wrapping\<close>

lemma wrap_loop_greedy:
  assumes "\<forall>w\<in>set ws. clean w" "line = [] \<or> clean line"
  shows "(case wrap_loop E x W lead f n ws (c, y, line) of
            (c', y', l) \<Rightarrow>
              if l \<noteq> [] then (c' @ [SetFont f n, DrawString x y' l], y' - lead) else (c', y'))
         = (c @ line_ops x y lead f n (greedy_lines (\<lambda>s. stringWidth E s f n \<le> W) line ws),
            y - lead * real (length (greedy_lines (\<lambda>s. stringWidth E s f n \<le> W) line ws)))"
  using assms
proof (induction ws arbitrary: c y line)
  case Nil
  then show ?case by simp
next
  case (Cons w ws)
  then have w: "clean w" and ws: "\<forall>w\<in>set ws. clean w" by simp_all
  have test: "strip (line @ [32] @ w) = join_word line w"
    using w Cons.prems(2) by (rule strip_join)
  show ?case
  proof (cases "stringWidth E (join_word line w) f n \<le> W")
    case True
    have "join_word line w = [] \<or> clean (join_word line w)"
      using clean_join [OF w Cons.prems(2)] by simp
    from Cons.IH [OF ws this, of c y] True test show ?thesis by simp
  next
    case False
    have "w = [] \<or> clean w" using w by simp
    from Cons.IH [OF ws this, of "c @ [SetFont f n, DrawString x y line]" "y - lead"] False test
    show ?thesis by (simp add: algebra_simps)
  qed
qed

lemma wrap_text_greedy:
  "wrap_text E c text x y W lead f n =
     (c @ line_ops x y lead f n (greedy_lines (\<lambda>s. stringWidth E s f n \<le> W) [] (split text)),
      y - lead * real (length (greedy_lines (\<lambda>s. stringWidth E s f n \<le> W) [] (split text))))"
  unfolding wrap_text_def
  by (rule wrap_loop_greedy) (auto dest: split_clean)

lemma drawn_lines_append: "drawn_lines (a @ b) = drawn_lines a @ drawn_lines b"
  by (induction a rule: drawn_lines.induct) auto

lemma drawn_lines_line_ops: "drawn_lines (line_ops x y lead f n ls) = ls"
  by (induction ls arbitrary: y) auto

lemma wrap_text_lines:
  "drawn_lines (fst (wrap_text E c text x y W lead f n)) =
     drawn_lines c @ greedy_lines (\<lambda>s. stringWidth E s f n \<le> W) [] (split text)"
  by (simp add: wrap_text_greedy drawn_lines_append drawn_lines_line_ops)

lemma greedy_lines_cases:
  "l \<in> set (greedy_lines fits cur ws) \<Longrightarrow> l = cur \<or> fits l \<or> l \<in> set ws"
  by (induction ws arbitrary: cur) (auto split: if_splits)

lemma greedy_lines_keeps_wide_cur:
  "cur \<noteq> [] \<Longrightarrow> \<forall>b. \<not> fits (join_word cur b) \<Longrightarrow> cur \<in> set (greedy_lines fits cur ws)"
  by (cases ws) auto

lemma greedy_lines_wide_word:
  assumes "\<forall>a b. fits (a @ b) \<longrightarrow> fits a \<and> fits b"
    and "w \<in> set ws" "\<not> fits w" "\<forall>v\<in>set ws. v \<noteq> []"
  shows "w \<in> set (greedy_lines fits cur ws)"
  using assms(2-)
proof (induction ws arbitrary: cur)
  case Nil
  then show ?case by simp
next
  case (Cons v ws)
  have wne: "w \<noteq> []" using Cons.prems by auto
  have suffix: "\<not> fits (join_word a w)" for a
  proof (cases "a = []")
    case True
    then show ?thesis using Cons.prems(2) by (simp add: join_word_def)
  next
    case False
    have "\<not> fits ([32] @ w)" using assms(1) Cons.prems(2) by blast
    then have "\<not> fits (a @ ([32] @ w))" using assms(1) by blast
    then show ?thesis using False by (simp add: join_word_def)
  qed
  have prefix: "\<not> fits (join_word w b)" for b
  proof -
    have "\<not> fits (w @ ([32] @ b))" using assms(1) Cons.prems(2) by blast
    then show ?thesis using wne by (simp add: join_word_def)
  qed
  show ?case
  proof (cases "v = w")
    case True
    have "w \<in> set (greedy_lines fits w ws)"
      using prefix wne by (intro greedy_lines_keeps_wide_cur) auto
    then show ?thesis using True suffix by simp
  next
    case False
    then have "w \<in> set ws" using Cons.prems by simp
    then have "w \<in> set (greedy_lines fits c' ws)" for c'
      using Cons.IH Cons.prems by simp
    then show ?thesis by simp
  qed
qed

lemma split_sample_text: "split sample_text = [ustr ''aaa'', ustr ''bbb'', ustr ''cccccccccc'']"
  by (simp add: sample_text_def split_def ustr_def is_space_def)

lemma wrap_sample_text:
  "drawn_lines (fst (wrap_text sample_env [] sample_text 18 198 22 11 ''Helvetica'' 11)) =
     [ustr ''aaa'', ustr ''bbb'', ustr ''cccccccccc'']"
  by (simp add: wrap_text_def split_sample_text)
     (simp add: ustr_def is_space_def strip_def sample_env_def)

text \<open>
  Claim C2. For every text, font and maximal width, \<^verbatim>\<open>wrap_text\<close> draws exactly the line
  sequence of the greedy word-boundary algorithm on the whitespace-separated words of the
  text: the lines of \<open>greedy_lines\<close>, drawn from \<open>y\<close> downwards one \<open>leading\<close> apart, after
  what the canvas held; the returned \<open>y\<close> is below the last line.
\<close>

theorem wrap_text_is_greedy:
  "wrap_text E c text x y W lead f n =
     (c @ line_ops x y lead f n (greedy_lines (\<lambda>s. stringWidth E s f n \<le> W) [] (split text)),
      y - lead * real (length (greedy_lines (\<lambda>s. stringWidth E s f n \<le> W) [] (split text)))) \<and>
   drawn_lines (fst (wrap_text E c text x y W lead f n)) =
     drawn_lines c @ greedy_lines (\<lambda>s. stringWidth E s f n \<le> W) [] (split text)"
  using wrap_text_greedy [of E c "text" x y W lead f n] wrap_text_lines [of E c "text" x y W lead f n]
  by simp

text \<open>
  On the sample text at width 22 the lines are \<^verbatim>\<open>aaa\<close>, \<^verbatim>\<open>bbb\<close> and the over-wide
  \<^verbatim>\<open>cccccccccc\<close>.
\<close>

theorem wrap_text_is_greedy_witness:
  "drawn_lines (fst (wrap_text sample_env [] sample_text 18 198 22 11 ''Helvetica'' 11)) =
     greedy_lines (\<lambda>s. stringWidth sample_env s ''Helvetica'' 11 \<le> 22) [] (split sample_text) \<and>
   greedy_lines (\<lambda>s. stringWidth sample_env s ''Helvetica'' 11 \<le> 22) [] (split sample_text) =
     [ustr ''aaa'', ustr ''bbb'', ustr ''cccccccccc'']"
  using wrap_text_is_greedy [of sample_env "[]" sample_text 18 198 22 11 "''Helvetica''" 11]
    wrap_sample_text
  by simp

text \<open>
  Claim C1. For every text, font and size, and every maximal width that is a width budget,
  that is, not below the rendered width of the empty string (0 under a font metric; the
  script always passes \<open>MAX_TEXT_W\<close>, 252 points), every line \<^verbatim>\<open>wrap_text\<close> draws has
  rendered width at most the maximal width, or is a single word of the text whose own
  width exceeds it. Moreover, for a font metric under which a string is at least as wide
  as each of its prefixes and suffixes, every word of the text wider than the maximal
  width is drawn as a line of its own, unsplit.
\<close>

theorem wrap_text_line_widths:
  assumes "stringWidth E [] f n \<le> W"
  shows "(\<forall>l\<in>set (drawn_lines (fst (wrap_text E [] text x y W lead f n))).
            stringWidth E l f n \<le> W \<or> (l \<in> set (split text) \<and> W < stringWidth E l f n)) \<and>
         ((\<forall>a b. stringWidth E a f n \<le> stringWidth E (a @ b) f n \<and>
                 stringWidth E b f n \<le> stringWidth E (a @ b) f n) \<longrightarrow>
          (\<forall>w\<in>set (split text). W < stringWidth E w f n \<longrightarrow>
             w \<in> set (drawn_lines (fst (wrap_text E [] text x y W lead f n)))))"
proof (intro conjI ballI impI)
  fix l
  assume "l \<in> set (drawn_lines (fst (wrap_text E [] text x y W lead f n)))"
  then have "l \<in> set (greedy_lines (\<lambda>s. stringWidth E s f n \<le> W) [] (split text))"
    by (simp add: wrap_text_lines)
  then have "l = [] \<or> stringWidth E l f n \<le> W \<or> l \<in> set (split text)"
    by (rule greedy_lines_cases)
  then show "stringWidth E l f n \<le> W \<or> (l \<in> set (split text) \<and> W < stringWidth E l f n)"
    using assms by (cases "stringWidth E l f n \<le> W") (simp, force simp: not_le)
next
  fix w
  assume mono: "\<forall>a b. stringWidth E a f n \<le> stringWidth E (a @ b) f n \<and>
                      stringWidth E b f n \<le> stringWidth E (a @ b) f n"
    and w: "w \<in> set (split text)" "W < stringWidth E w f n"
  have down: "\<forall>a b. stringWidth E (a @ b) f n \<le> W \<longrightarrow> stringWidth E a f n \<le> W \<and> stringWidth E b f n \<le> W"
  proof (intro allI impI)
    fix a b assume "stringWidth E (a @ b) f n \<le> W"
    moreover have "stringWidth E a f n \<le> stringWidth E (a @ b) f n"
      "stringWidth E b f n \<le> stringWidth E (a @ b) f n" using mono by blast+
    ultimately show "stringWidth E a f n \<le> W \<and> stringWidth E b f n \<le> W" by linarith
  qed
  have ne: "\<forall>v\<in>set (split text). v \<noteq> []"
  proof
    fix v assume "v \<in> set (split text)"
    then have "clean v" by (rule split_clean)
    then show "v \<noteq> []" by (simp add: clean_def)
  qed
  have wide: "\<not> stringWidth E w f n \<le> W" using w(2) by simp
  have "w \<in> set (greedy_lines (\<lambda>s. stringWidth E s f n \<le> W) [] (split text))"
    by (rule greedy_lines_wide_word [where fits = "\<lambda>s. stringWidth E s f n \<le> W", OF down w(1) wide ne])
  then show "w \<in> set (drawn_lines (fst (wrap_text E [] text x y W lead f n)))"
    by (simp add: wrap_text_lines)
qed

text \<open>
  At width 22 the sample text has the fitting line \<^verbatim>\<open>aaa\<close> and the over-wide word
  \<^verbatim>\<open>cccccccccc\<close> on a line of its own.
\<close>

theorem wrap_text_line_widths_witness:
  "stringWidth sample_env [] ''Helvetica'' 11 \<le> 22 \<and>
   (\<forall>a b. stringWidth sample_env a ''Helvetica'' 11 \<le> stringWidth sample_env (a @ b) ''Helvetica'' 11 \<and>
          stringWidth sample_env b ''Helvetica'' 11 \<le> stringWidth sample_env (a @ b) ''Helvetica'' 11) \<and>
   ustr ''cccccccccc'' \<in> set (split sample_text) \<and>
   22 < stringWidth sample_env (ustr ''cccccccccc'') ''Helvetica'' 11 \<and>
   ustr ''cccccccccc'' \<in>
     set (drawn_lines (fst (wrap_text sample_env [] sample_text 18 198 22 11 ''Helvetica'' 11))) \<and>
   ustr ''aaa'' \<in>
     set (drawn_lines (fst (wrap_text sample_env [] sample_text 18 198 22 11 ''Helvetica'' 11))) \<and>
   stringWidth sample_env (ustr ''aaa'') ''Helvetica'' 11 \<le> 22"
proof -
  have h: "stringWidth sample_env [] ''Helvetica'' 11 \<le> 22"
    by (simp add: sample_env_def)
  have m: "\<forall>a b. stringWidth sample_env a ''Helvetica'' 11 \<le> stringWidth sample_env (a @ b) ''Helvetica'' 11 \<and>
          stringWidth sample_env b ''Helvetica'' 11 \<le> stringWidth sample_env (a @ b) ''Helvetica'' 11"
    by (simp add: sample_env_def)
  have sp: "ustr ''cccccccccc'' \<in> set (split sample_text)"
    by (simp add: split_sample_text)
  have wide: "22 < stringWidth sample_env (ustr ''cccccccccc'') ''Helvetica'' 11"
    by (simp add: sample_env_def ustr_def)
  have narrow: "\<not> 22 < stringWidth sample_env (ustr ''aaa'') ''Helvetica'' 11"
    by (simp add: sample_env_def ustr_def)
  have a: "ustr ''aaa'' \<in>
     set (drawn_lines (fst (wrap_text sample_env [] sample_text 18 198 22 11 ''Helvetica'' 11)))"
    by (simp add: wrap_sample_text)
  note t = wrap_text_line_widths [OF h, of sample_text 18 198 11]
  from t m sp wide have c: "ustr ''cccccccccc'' \<in>
     set (drawn_lines (fst (wrap_text sample_env [] sample_text 18 198 22 11 ''Helvetica'' 11)))"
    by blast
  from t a narrow have "stringWidth sample_env (ustr ''aaa'') ''Helvetica'' 11 \<le> 22"
    by blast
  with h m sp wide c a show ?thesis by blast
qed

subsection \<open>Card labels: the barcode floor\<close>

lemma barcode_ys_append: "barcode_ys (a @ b) = barcode_ys a @ barcode_ys b"
  by (induction a rule: barcode_ys.induct) auto

lemma title_loop_barcode_ys: "barcode_ys (fst (title_loop x i ls st)) = barcode_ys (fst st)"
  by (induction x i ls st rule: title_loop.induct) (auto simp: barcode_ys_append Let_def)

lemma body_loop_barcode_ys: "barcode_ys (fst (body_loop x n i ls st)) = barcode_ys (fst st)"
  by (induction x n i ls st rule: body_loop.induct) (auto simp: barcode_ys_append Let_def)

lemma bullets_loop_barcode_ys: "barcode_ys (fst (bullets_loop E x w ts st)) = barcode_ys (fst st)"
  by (induction E x w ts st rule: bullets_loop.induct) (auto simp: body_loop_barcode_ys Let_def)

lemma title_loop_cursor: "snd (title_loop x i ls (c, y)) = snd (title_loop x i ls ([], y))"
proof (induction ls arbitrary: i c y)
  case Nil
  then show ?case by simp
next
  case (Cons l ls)
  show ?case
    using Cons.IH [of "Suc i" "c @ [DrawString x (y - (if i = 0 then real TITLE_SIZE else real (TITLE_SIZE + 1))) l]"]
      Cons.IH [of "Suc i" "[DrawString x (y - (if i = 0 then real TITLE_SIZE else real (TITLE_SIZE + 1))) l]"]
    by (simp add: Let_def)
qed

lemma body_loop_cursor: "snd (body_loop x n i ls (c, y)) = snd (body_loop x n i ls ([], y))"
proof (induction ls arbitrary: i c y)
  case Nil
  then show ?case by simp
next
  case (Cons l ls)
  show ?case
    using Cons.IH [of "Suc i" "c @ [DrawString x (y - (real BODY_SIZE + (if int i = int n - 1 then LINE_GAP else 1))) l]"]
      Cons.IH [of "Suc i" "[DrawString x (y - (real BODY_SIZE + (if int i = int n - 1 then LINE_GAP else 1))) l]"]
    by (simp add: Let_def)
qed

lemma bullets_loop_cursor:
  "snd (bullets_loop E x w ts (c, y)) = snd (bullets_loop E x w ts ([], y))"
proof (induction ts arbitrary: c y)
  case Nil
  then show ?case by simp
next
  case (Cons t ts)
  let ?ls = "simpleSplit E t BODY_FONT BODY_SIZE w"
  obtain c1 y1 where a: "body_loop x (length ?ls) 0 ?ls (c, y) = (c1, y1)" by (cases "body_loop x (length ?ls) 0 ?ls (c, y)")
  obtain c2 y2 where b: "body_loop x (length ?ls) 0 ?ls ([], y) = (c2, y2)" by (cases "body_loop x (length ?ls) 0 ?ls ([], y)")
  have "y1 = y2" using body_loop_cursor [of x "length ?ls" 0 ?ls c y] a b by simp
  then show ?case using a b Cons.IH [of c1 y1] Cons.IH [of c2 y2] by (simp add: Let_def)
qed

lemma card_text_cursor: "snd (card_text E row c) = card_cursor E row"
proof -
  let ?w = "card_PAGE_W - LEFT_MARGIN - RIGHT_MARGIN"
  let ?tl = "simpleSplit E (title row) TITLE_FONT TITLE_SIZE ?w"
  let ?y = "card_PAGE_H - TOP_PADDING"
  have 1: "snd (title_loop LEFT_MARGIN 0 ?tl (c @ [SetFont TITLE_FONT TITLE_SIZE], ?y)) =
           snd (title_loop LEFT_MARGIN 0 ?tl ([SetFont TITLE_FONT TITLE_SIZE], ?y))"
    using title_loop_cursor [of LEFT_MARGIN 0 ?tl "c @ [SetFont TITLE_FONT TITLE_SIZE]" ?y]
      title_loop_cursor [of LEFT_MARGIN 0 ?tl "[SetFont TITLE_FONT TITLE_SIZE]" ?y] by simp
  have 2: "snd (bullets_loop E LEFT_MARGIN ?w ts (c1, y1)) = snd (bullets_loop E LEFT_MARGIN ?w ts (c2, y1))"
    for ts c1 c2 y1
    using bullets_loop_cursor [of E LEFT_MARGIN ?w ts c1 y1] bullets_loop_cursor [of E LEFT_MARGIN ?w ts c2 y1]
    by simp
  show ?thesis
    unfolding card_cursor_def card_text_def Let_def
    by (simp del: bullets_loop.simps add: 1 2 [of _ "fst (title_loop LEFT_MARGIN 0 ?tl (c @ [SetFont TITLE_FONT TITLE_SIZE], ?y)) @ [SetFont BODY_FONT BODY_SIZE]" _ "fst (title_loop LEFT_MARGIN 0 ?tl ([SetFont TITLE_FONT TITLE_SIZE], ?y)) @ [SetFont BODY_FONT BODY_SIZE]"])
qed

lemma card_text_barcode_ys: "barcode_ys (fst (card_text E row c)) = barcode_ys c"
  by (simp add: card_text_def Let_def bullets_loop_barcode_ys title_loop_barcode_ys barcode_ys_append
      del: bullets_loop.simps)

lemma card_barcode_ys:
  "barcode_ys (card_barcode E row st) = barcode_ys (fst st) @ [max 8 (snd st - BARCODE_HEIGHT)]"
  by (simp add: card_barcode_def Let_def barcode_ys_append)

text \<open>
  Claim C3. In both card scripts, for every record and whatever \<^verbatim>\<open>simpleSplit\<close> returns (so
  however many wrapped lines precede the barcode and however low the cursor \<open>y\<close> is), the
  label draws exactly one barcode, at the vertical position \<open>max 8 (y - BARCODE_HEIGHT)\<close>,
  which is never below 8 points.
\<close>

theorem card_barcode_floor:
  "barcode_ys (card_draw_label E c row) = barcode_ys c @ [max 8 (card_cursor E row - BARCODE_HEIGHT)] \<and>
   barcode_ys (pokemon_draw_label E c row) = barcode_ys c @ [max 8 (card_cursor E row - BARCODE_HEIGHT)] \<and>
   8 \<le> max 8 (card_cursor E row - BARCODE_HEIGHT)"
  by (simp add: card_draw_label_def pokemon_draw_label_def card_barcode_ys card_text_cursor
      card_text_barcode_ys barcode_ys_append)

text \<open>
  With one character per line the nineteen-character title alone overruns the label: the
  cursor is at -476 and the barcode is drawn at the floor, 8.
\<close>

theorem card_barcode_floor_witness:
  "card_cursor sample_env long_title_row = - 476 \<and>
   barcode_ys (card_draw_label sample_env [] long_title_row) = [8] \<and>
   barcode_ys (pokemon_draw_label sample_env [] long_title_row) = [8]"
proof -
  have cur: "card_cursor sample_env long_title_row = - 476"
    by (simp add: card_cursor_def card_text_def long_title_row_def sample_env_def ustr_def Let_def
      bullet_def bullet_glyph_def card_PAGE_W_def card_PAGE_H_def inch_def TITLE_FONT_def
      BODY_FONT_def TITLE_SIZE_def BODY_SIZE_def LINE_GAP_def TOP_PADDING_def LEFT_MARGIN_def
      RIGHT_MARGIN_def BAR_GAP_def)
  from card_barcode_floor [of sample_env "[]" long_title_row] show ?thesis
    by (simp add: cur BARCODE_HEIGHT_def inch_def)
qed

subsection \<open>Comic labels: the operations of a label\<close>

lemma filter_line_ops: "text_free P \<Longrightarrow> filter P (line_ops x y lead f n ls) = []"
  by (induction ls arbitrary: y) (auto simp: text_free_def)

lemma wrap_text_filter:
  "text_free P \<Longrightarrow> filter P (fst (wrap_text E c t x y W lead f n)) = filter P c"
  by (simp add: wrap_text_greedy filter_line_ops)

lemma comic_bullets_loop_filter:
  "text_free P \<Longrightarrow> filter P (fst (comic_bullets_loop E x bs st)) = filter P (fst st)"
proof (induction bs arbitrary: st)
  case Nil
  then show ?case by simp
next
  case (Cons b bs)
  obtain c y where st: "st = (c, y)" by (cases st)
  let ?r = "wrap_text E c ([bullet_glyph, 32] @ strip b) x y MAX_TEXT_W 11 ''Helvetica'' 11"
  have "filter P (fst ?r) = filter P c" using Cons.prems by (rule wrap_text_filter)
  moreover have "comic_bullets_loop E x (b # bs) st = comic_bullets_loop E x bs (fst ?r, snd ?r - 3)"
    by (simp add: st split: prod.splits)
  ultimately show ?case using Cons.IH [OF Cons.prems, of "(fst ?r, snd ?r - 3)"] st by simp
qed

lemma comic_publisher_filter:
  "text_free P \<Longrightarrow> filter P (fst (comic_publisher E x p st)) = filter P (fst st)"
  using wrap_text_filter [of P E "fst st" "[bullet_glyph] @ ustr '' Publisher: '' @ strip p" x "snd st" MAX_TEXT_W 11 "''Helvetica-Oblique''" 11]
  by (auto simp: comic_publisher_def split: prod.splits)

lemma comic_body_filter:
  "text_free P \<Longrightarrow> filter P (fst (comic_body E x b1' b2' b3' p st)) = filter P (fst st)"
  by (simp add: comic_body_def comic_publisher_filter comic_bullets_def comic_bullets_loop_filter text_free_def)

lemma list8: "length xs = 8 \<Longrightarrow> xs = [xs ! 0, xs ! 1, xs ! 2, xs ! 3, xs ! 4, xs ! 5, xs ! 6, xs ! 7]"
  by (auto simp: list_eq_iff_nth_eq less_Suc_eq numeral_eq_Suc nth_Cons')

lemma comic_barcode_eq:
  "sym_width (code128 E v (0.30 * inch) None) \<noteq> 0 \<Longrightarrow>
   comic_barcode E v (c, y) =
     Inr (c @ [SaveState,
               Translate ((comic_PAGE_W - sym_width (code128 E v (0.30 * inch) None) *
                            comic_scale (sym_width (code128 E v (0.30 * inch) None))) / 2)
                 (y - sym_height (code128 E v (0.30 * inch) None) *
                        comic_scale (sym_width (code128 E v (0.30 * inch) None))),
               Scale (comic_scale (sym_width (code128 E v (0.30 * inch) None)))
                 (comic_scale (sym_width (code128 E v (0.30 * inch) None))),
               DrawBarcode v 0 0, RestoreState],
          y - sym_height (code128 E v (0.30 * inch) None) *
                comic_scale (sym_width (code128 E v (0.30 * inch) None)))"
  by (simp add: comic_barcode_def comic_scale_def Let_def)

lemma comic_text_filter:
  "text_free P \<Longrightarrow> filter P (fst (comic_text E t b1' b2' b3' p pd iv bn c)) = filter P c"
  by (simp add: comic_text_def Let_def comic_body_filter wrap_text_filter) (simp add: text_free_def)

lemma comic_draw_label_filter:
  assumes P: "text_free P" and len: "length row = 8"
    and w: "sym_width (code128 E (normalize_text (row ! 7)) (0.30 * inch) None) \<noteq> 0"
  shows "\<exists>c' bc_y. comic_draw_label E c row = Inr c' \<and>
           filter P c' = filter P c @
             filter P [SaveState,
               Translate ((comic_PAGE_W - sym_width (code128 E (normalize_text (row ! 7)) (0.30 * inch) None) *
                  comic_scale (sym_width (code128 E (normalize_text (row ! 7)) (0.30 * inch) None))) / 2) bc_y,
               Scale (comic_scale (sym_width (code128 E (normalize_text (row ! 7)) (0.30 * inch) None)))
                 (comic_scale (sym_width (code128 E (normalize_text (row ! 7)) (0.30 * inch) None))),
               DrawBarcode (normalize_text (row ! 7)) 0 0, RestoreState]"
proof -
  define t a1 a2 a3 p pd iv bn where fields:
    "t = normalize_text (row ! 0)" "a1 = normalize_text (row ! 1)" "a2 = normalize_text (row ! 2)"
    "a3 = normalize_text (row ! 3)" "p = normalize_text (row ! 4)"
    "pd = strip (normalize_text (row ! 5))" "iv = normalize_text (row ! 6)"
    "bn = normalize_text (row ! 7)"
  define sym where "sym = code128 E bn (0.30 * inch) None"
  define st where "st = comic_text E t a1 a2 a3 p pd iv bn c"
  define bc_y where "bc_y = snd st - sym_height sym * comic_scale (sym_width sym)"
  define ops where "ops = [SaveState,
      Translate ((comic_PAGE_W - sym_width sym * comic_scale (sym_width sym)) / 2) bc_y,
      Scale (comic_scale (sym_width sym)) (comic_scale (sym_width sym)),
      DrawBarcode bn 0 0, RestoreState]"
  have row: "map normalize_text row = [t, a1, a2, a3, p, normalize_text (row ! 5), iv, bn]"
    unfolding fields by (subst list8 [OF len]) simp
  have tf: "\<not> P (SetFont f n)" "\<not> P (DrawCentredString x y z)" for f n x y z
    using P by (simp_all add: text_free_def)
  have stf: "filter P (fst st) = filter P c"
    unfolding st_def using P by (rule comic_text_filter)
  have "sym_width sym \<noteq> 0" using w by (simp add: sym_def fields)
  then have bc: "comic_barcode E bn st = Inr (fst st @ ops, bc_y)"
    using comic_barcode_eq [of E bn "fst st" "snd st"]
    by (simp add: sym_def ops_def bc_y_def)
  have "comic_draw_label E c row =
          Inr ((fst st @ ops) @ [SetFont ''Helvetica-Bold'' 10,
                 DrawCentredString (comic_PAGE_W / 2.0) (bc_y - 12) (iv @ ustr ''   '' @ pd)])"
    unfolding comic_draw_label_def row list.case Let_def
    by (simp add: bc flip: st_def fields(6))
  moreover have "filter P ((fst st @ ops) @ [SetFont ''Helvetica-Bold'' 10,
                 DrawCentredString (comic_PAGE_W / 2.0) (bc_y - 12) (iv @ ustr ''   '' @ pd)])
        = filter P c @ filter P ops"
    by (simp add: stf tf)
  ultimately show ?thesis
    unfolding ops_def sym_def fields(8) by blast
qed

lemma sample_width_nonzero: "sym_width (code128 sample_env v (0.30 * inch) None) \<noteq> 0"
proof -
  have "0 < 36 + 11 * real (length v)" by (simp add: add_pos_nonneg)
  then show ?thesis by (simp add: sample_env_def)
qed

lemma charizard_row_short: "\<not> is_blank_row charizard_row \<and> length charizard_row < 8"
  by (simp add: is_blank_row_def charizard_row_def ustr_def strip_def is_space_def)

lemma comic_row_nonblank: "\<not> is_blank_row comic_row \<and> length comic_row = 8"
  by (simp add: is_blank_row_def comic_row_def ustr_def strip_def is_space_def)

text \<open>
  Claim C4. In the comic script, for every record (eight fields, and a barcode symbol of
  non-zero native width \<open>w\<close>, without which the division fails), the label is drawn and its
  barcode block is: save the state, translate to \<open>(bc_x, bc_y)\<close>, scale by \<open>s\<close> in both
  directions, draw the barcode at the origin, restore the state; where
  \<open>s = min (2.6 * inch / w) 1.8\<close>, so the magnification never exceeds 1.8, and
  \<open>bc_x = (PAGE_W - w * s) / 2\<close>, so the middle of the scaled barcode \<open>bc_x + w * s / 2\<close> is
  the middle of the page, which is 4 inches wide.
\<close>

theorem comic_barcode_scale_and_centre:
  assumes "length row = 8"
    and "sym_width (code128 E (normalize_text (row ! 7)) (0.30 * inch) None) \<noteq> 0"
  shows "let w = sym_width (code128 E (normalize_text (row ! 7)) (0.30 * inch) None);
             s = comic_scale w;
             bc_x = (comic_PAGE_W - w * s) / 2
         in (\<exists>c' bc_y. comic_draw_label E c row = Inr c' \<and>
               filter is_barcode_op c' = filter is_barcode_op c @
                 [SaveState, Translate bc_x bc_y, Scale s s,
                  DrawBarcode (normalize_text (row ! 7)) 0 0, RestoreState]) \<and>
            s = min (2.6 * inch / w) 1.8 \<and> s \<le> 1.8 \<and>
            bc_x + w * s / 2 = comic_PAGE_W / 2 \<and> comic_PAGE_W = 4 * inch"
proof -
  have "text_free is_barcode_op" by (simp add: text_free_def)
  from comic_draw_label_filter [OF this assms, of c] show ?thesis
    by (simp add: Let_def comic_scale_def comic_PAGE_W_def field_simps)
qed

text \<open>
  A symbol 91 points wide would need a factor above 2 to reach 2.6 inches: it is scaled
  by the cap 1.8 and placed at \<open>x = 62.1\<close>.
\<close>

theorem comic_barcode_scale_and_centre_witness:
  "length comic_row = 8 \<and>
   sym_width (code128 sample_env (normalize_text (comic_row ! 7)) (0.30 * inch) None) = 91 \<and>
   comic_scale 91 = 1.8 \<and>
   (\<exists>c' bc_y. comic_draw_label sample_env [] comic_row = Inr c' \<and>
      filter is_barcode_op c' =
        [SaveState, Translate 62.1 bc_y, Scale 1.8 1.8, DrawBarcode (ustr ''12345'') 0 0,
         RestoreState])"
proof -
  have len: "length comic_row = 8" by (simp add: comic_row_def)
  have bn: "normalize_text (comic_row ! 7) = ustr ''12345''"
    by (simp add: comic_row_def normalize_text_def replace_def ustr_def)
  have w': "sym_width (code128 sample_env (ustr ''12345'') (0.30 * inch) None) = 91"
    by (simp add: sample_env_def ustr_def)
  have w: "sym_width (code128 sample_env (normalize_text (comic_row ! 7)) (0.30 * inch) None) = 91"
    unfolding bn by (rule w')
  then have nz: "sym_width (code128 sample_env (normalize_text (comic_row ! 7)) (0.30 * inch) None) \<noteq> 0"
    by simp
  have s: "comic_scale 91 = 1.8" by (simp add: comic_scale_def inch_def)
  have x: "(comic_PAGE_W - 91 * 1.8) / 2 = 62.1" by (simp add: comic_PAGE_W_def inch_def)
  note t = comic_barcode_scale_and_centre [OF len nz, of "[]", unfolded Let_def bn w' s x]
  then have "\<exists>c' bc_y. comic_draw_label sample_env [] comic_row = Inr c' \<and>
      filter is_barcode_op c' =
        [SaveState, Translate 62.1 bc_y, Scale 1.8 1.8, DrawBarcode (ustr ''12345'') 0 0,
         RestoreState]"
    by simp
  with len w s show ?thesis by blast
qed

subsection \<open>Comic labels: rows with fewer than eight fields\<close>

lemma comic_loop_short_row:
  assumes "\<And>v. sym_width (code128 E v (0.30 * inch) None) \<noteq> 0"
    and "\<exists>r\<in>set rows. \<not> is_blank_row r \<and> length r < 8"
  shows "comic_loop E rows c = Inl SchemaError"
  using assms(2)
proof (induction rows arbitrary: c)
  case Nil
  then show ?case by simp
next
  case (Cons row rows)
  show ?case
  proof (cases "is_blank_row row \<or> 8 \<le> length row")
    case False
    then show ?thesis by simp
  next
    case True
    then have rest: "\<exists>r\<in>set rows. \<not> is_blank_row r \<and> length r < 8"
      using Cons.prems by auto
    show ?thesis
    proof (cases "is_blank_row row")
      case True
      then show ?thesis using Cons.IH [OF rest] by simp
    next
      case False
      with True have len: "length (take 8 row) = 8" by simp
      have "text_free (\<lambda>op. False)" by (simp add: text_free_def)
      from comic_draw_label_filter [OF this len assms(1), of c]
      obtain c' where "comic_draw_label E c (take 8 row) = Inr c'" by blast
      then show ?thesis using False True Cons.IH [OF rest] by simp
    qed
  qed
qed

lemma comic_loop_short_row_fails:
  assumes "\<exists>r\<in>set rows. \<not> is_blank_row r \<and> length r < 8"
  shows "\<exists>e. comic_loop E rows c = Inl e"
  using assms
proof (induction rows arbitrary: c)
  case Nil
  then show ?case by simp
next
  case (Cons row rows)
  show ?case
  proof (cases "\<not> is_blank_row row \<and> length row < 8")
    case True
    then show ?thesis by simp
  next
    case False
    then have rest: "\<exists>r\<in>set rows. \<not> is_blank_row r \<and> length r < 8"
      using Cons.prems by auto
    show ?thesis using False Cons.IH [OF rest] by (auto split: sum.splits)
  qed
qed

text \<open>
  Claim C6. In the comic script, for every existing input with some non-blank row of fewer
  than eight fields, the run ends in an error before the document is saved: the whole
  batch is aborted, nothing is padded or skipped. The error is the schema error
  (\<^verbatim>\<open>ValueError\<close>, each row must have 8 columns) raised at that row, provided drawing the
  rows before it does not fail first, that is, the barcode library never reports a
  symbol of width zero.
\<close>

theorem comic_short_row_aborts:
  assumes "file_exists f"
    and "\<exists>r\<in>set (csv_rows f). \<not> is_blank_row r \<and> length r < 8"
  shows "(\<exists>e. comic_main E f = Inl e) \<and>
         ((\<forall>v. sym_width (code128 E v (0.30 * inch) None) \<noteq> 0) \<longrightarrow>
            comic_main E f = Inl SchemaError)"
  using assms comic_loop_short_row [of E "csv_rows f" "[]"] comic_loop_short_row_fails [of "csv_rows f" E "[]"]
  by (simp add: comic_main_def)

text \<open>
  A full row followed by the seven-column Charizard row: the run ends with the schema
  error.
\<close>

theorem comic_short_row_aborts_witness:
  "file_exists short_row_file \<and> charizard_row \<in> set (csv_rows short_row_file) \<and>
   \<not> is_blank_row charizard_row \<and> length charizard_row < 8 \<and>
   (\<forall>v. sym_width (code128 sample_env v (0.30 * inch) None) \<noteq> 0) \<and>
   comic_main sample_env short_row_file = Inl SchemaError"
proof -
  have e: "file_exists short_row_file" by (simp add: short_row_file_def)
  have m: "charizard_row \<in> set (csv_rows short_row_file)" by (simp add: short_row_file_def)
  from m charizard_row_short
  have s: "\<exists>r\<in>set (csv_rows short_row_file). \<not> is_blank_row r \<and> length r < 8" by blast
  from comic_short_row_aborts [OF e s, of sample_env] sample_width_nonzero e m charizard_row_short
  show ?thesis by blast
qed

subsection \<open>Inputs without rows\<close>

lemma comic_loop_blank: "nonblank_rows rows = [] \<Longrightarrow> comic_loop E rows c = Inr c"
  by (induction rows) (auto simp: nonblank_rows_def split: if_splits)

text \<open>
  Claim C7, as amended. For every existing input file with zero non-blank rows: the card
  script, when the delimiter sniffing succeeds, aborts with the error \<^verbatim>\<open>No rows parsed\<close>
  before it creates the output directory or the canvas, so it writes nothing; the comic
  script has no such check and saves a document without pages.
\<close>

theorem no_rows_parsed:
  assumes "file_exists f" "nonblank_rows (csv_rows f) = []"
  shows "(sniffable f \<longrightarrow> card_main E f = Inl NoRowsParsed) \<and> comic_main E f = Inr []"
  using assms by (simp add: card_main_def read_rows_def read_loop_eq comic_main_def comic_loop_blank)

text \<open>
  A file of an empty row and a row of whitespace-only fields.
\<close>

theorem no_rows_parsed_witness:
  "file_exists blank_file \<and> nonblank_rows (csv_rows blank_file) = [] \<and> sniffable blank_file \<and>
   card_main sample_env blank_file = Inl NoRowsParsed"
proof -
  have e: "file_exists blank_file" and s: "sniffable blank_file" by (simp_all add: blank_file_def)
  have n: "nonblank_rows (csv_rows blank_file) = []"
    by (simp add: blank_file_def nonblank_rows_def is_blank_row_def ustr_def strip_def is_space_def)
  from no_rows_parsed [OF e n, of sample_env] e n s show ?thesis by simp
qed

text \<open>
  Claim C7 as stated fails for the comic script: on the same file it saves the (empty)
  document instead of aborting.
\<close>

theorem comic_no_rows_counterexample:
  "file_exists blank_file \<and> nonblank_rows (csv_rows blank_file) = [] \<and>
   comic_main sample_env blank_file = Inr []"
  by (simp add: blank_file_def nonblank_rows_def is_blank_row_def ustr_def strip_def is_space_def
      comic_main_def)

subsection \<open>One record per non-blank row\<close>

lemma comic_loop_render:
  "\<forall>r\<in>set (nonblank_rows rows). 8 \<le> length r \<Longrightarrow>
   comic_loop E rows c = render_records E (map (take 8) (nonblank_rows rows)) c"
  by (induction rows arbitrary: c) (auto simp: nonblank_rows_def split: sum.splits)

lemma comic_draw_label_pages:
  assumes "length r = 8" "sym_width (code128 E (normalize_text (r ! 7)) (0.30 * inch) None) \<noteq> 0"
  shows "\<exists>c'. comic_draw_label E c r = Inr c' \<and> page_count c' = page_count c"
proof -
  have "text_free (\<lambda>op. op = ShowPage)" by (simp add: text_free_def)
  from comic_draw_label_filter [OF this assms, of c] show ?thesis
    by (auto simp: page_count_def)
qed

lemma render_records_pages:
  assumes "\<And>v. sym_width (code128 E v (0.30 * inch) None) \<noteq> 0"
    and "\<forall>r\<in>set rs. length r = 8"
  shows "\<exists>c'. render_records E rs c = Inr c' \<and> page_count c' = page_count c + length rs"
  using assms(2)
proof (induction rs arbitrary: c)
  case Nil
  then show ?case by simp
next
  case (Cons r rs)
  then have "length r = 8" by simp
  from comic_draw_label_pages [OF this assms(1), of c]
  obtain c1 where c1: "comic_draw_label E c r = Inr c1" "page_count c1 = page_count c" by blast
  from Cons obtain c' where "render_records E rs (c1 @ [ShowPage]) = Inr c'"
    "page_count c' = page_count (c1 @ [ShowPage]) + length rs" by fastforce
  then show ?case using c1 by (simp add: page_count_def)
qed

text \<open>
  Claim C8, as amended. Card reader: whenever the delimiter sniffing succeeds, the reader
  returns exactly one record per non-blank row, in input order, skipping the blank rows
  silently; so the number of records is the number of non-blank rows. Comic script: for
  every existing input whose non-blank rows all have at least eight fields, the run is
  the rendering of the first eight fields of each non-blank row, one page each, in input
  order; when the barcode library never reports a symbol of width zero, the document is
  saved and its number of pages is the number of non-blank rows.
\<close>

theorem reader_one_record_per_nonblank_row:
  "(sniffable f \<longrightarrow>
      read_rows f = Inr (map (\<lambda>raw. record_of_fields (padded_fields raw)) (nonblank_rows (csv_rows f))) \<and>
      (\<exists>rows. read_rows f = Inr rows \<and> length rows = length (nonblank_rows (csv_rows f)))) \<and>
   (file_exists f \<and> (\<forall>r\<in>set (nonblank_rows (csv_rows f)). 8 \<le> length r) \<longrightarrow>
      comic_main E f = render_records E (map (take 8) (nonblank_rows (csv_rows f))) [] \<and>
      ((\<forall>v. sym_width (code128 E v (0.30 * inch) None) \<noteq> 0) \<longrightarrow>
         (\<exists>c. comic_main E f = Inr c \<and> page_count c = length (nonblank_rows (csv_rows f)))))"
proof (intro conjI impI)
  assume "sniffable f"
  then show "read_rows f = Inr (map (\<lambda>raw. record_of_fields (padded_fields raw)) (nonblank_rows (csv_rows f)))"
    by (rule read_rows_eq)
  then show "\<exists>rows. read_rows f = Inr rows \<and> length rows = length (nonblank_rows (csv_rows f))"
    by simp
next
  assume a: "file_exists f \<and> (\<forall>r\<in>set (nonblank_rows (csv_rows f)). 8 \<le> length r)"
  then show eq: "comic_main E f = render_records E (map (take 8) (nonblank_rows (csv_rows f))) []"
    by (simp add: comic_main_def comic_loop_render)
  assume w: "\<forall>v. sym_width (code128 E v (0.30 * inch) None) \<noteq> 0"
  have "\<forall>r\<in>set (map (take 8) (nonblank_rows (csv_rows f))). length r = 8"
    using a by auto
  from render_records_pages [OF _ this, of E "[]"] w
  show "\<exists>c. comic_main E f = Inr c \<and> page_count c = length (nonblank_rows (csv_rows f))"
    by (simp add: eq page_count_def)
qed

text \<open>
  Two non-blank rows around an empty one: two records, two pages.
\<close>

theorem reader_one_record_per_nonblank_row_witness:
  "sniffable comic_file \<and> file_exists comic_file \<and>
   nonblank_rows (csv_rows comic_file) = [comic_row, comic_row @ [ustr ''extra'']] \<and>
   8 \<le> length comic_row \<and> 8 \<le> length (comic_row @ [ustr ''extra'']) \<and>
   (\<forall>v. sym_width (code128 sample_env v (0.30 * inch) None) \<noteq> 0) \<and>
   (\<exists>rows. read_rows comic_file = Inr rows \<and> length rows = 2) \<and>
   (\<exists>c. comic_main sample_env comic_file = Inr c \<and> page_count c = 2)"
proof -
  have s: "sniffable comic_file" and e: "file_exists comic_file" by (simp_all add: comic_file_def)
  have x: "\<not> is_blank_row (comic_row @ [ustr ''extra''])"
    by (simp add: is_blank_row_def comic_row_def ustr_def strip_def is_space_def)
  have n: "nonblank_rows (csv_rows comic_file) = [comic_row, comic_row @ [ustr ''extra'']]"
    using comic_row_nonblank x by (simp add: comic_file_def nonblank_rows_def is_blank_row_def)
  have l: "8 \<le> length comic_row" "8 \<le> length (comic_row @ [ustr ''extra''])"
    using comic_row_nonblank by simp_all
  then have a: "\<forall>r\<in>set (nonblank_rows (csv_rows comic_file)). 8 \<le> length r" by (simp add: n)
  from reader_one_record_per_nonblank_row [of comic_file sample_env] s e a sample_width_nonzero
  have "(\<exists>rows. read_rows comic_file = Inr rows \<and> length rows = length (nonblank_rows (csv_rows comic_file))) \<and>
        (\<exists>c. comic_main sample_env comic_file = Inr c \<and> page_count c = length (nonblank_rows (csv_rows comic_file)))"
    by blast
  moreover have "length (nonblank_rows (csv_rows comic_file)) = 2" by (simp add: n)
  ultimately have "(\<exists>rows. read_rows comic_file = Inr rows \<and> length rows = 2) \<and>
        (\<exists>c. comic_main sample_env comic_file = Inr c \<and> page_count c = 2)"
    by (simp only:)
  then show ?thesis using s e n l sample_width_nonzero by blast
qed

text \<open>
  Claim C8 as stated, for every input file and both variants, fails for the comic script:
  of two non-blank rows the second has seven fields, and the run ends with the schema
  error instead of yielding two records.
\<close>

theorem comic_short_row_counterexample:
  "file_exists short_row_file \<and> length (nonblank_rows (csv_rows short_row_file)) = 2 \<and>
   comic_main sample_env short_row_file = Inl SchemaError"
proof -
  have "sym_width (code128 sample_env (normalize_text (take 8 comic_row ! 7)) (0.30 * inch) None) \<noteq> 0"
    by (rule sample_width_nonzero)
  moreover have "length (take 8 comic_row) = 8" using comic_row_nonblank by simp
  moreover have "text_free (\<lambda>op. False)" by (simp add: text_free_def)
  ultimately obtain c' where "comic_draw_label sample_env [] (take 8 comic_row) = Inr c'"
    using comic_draw_label_filter [of "\<lambda>op. False" "take 8 comic_row" sample_env "[]"] by blast
  then show ?thesis
    using comic_row_nonblank charizard_row_short
    by (simp add: short_row_file_def nonblank_rows_def comic_main_def)
qed

subsection \<open>Comic labels: blank bullets and publisher\<close>

lemma keep_bullet_iff: "keep_bullet b \<longleftrightarrow> \<not> is_blank b"
  by (cases b) (auto simp: keep_bullet_def is_blank_def strip_Nil_iff)

lemma keep_bullet_eq: "keep_bullet = (\<lambda>b. \<not> is_blank b)"
  by (rule ext) (rule keep_bullet_iff)

lemma comic_bullets_loop_fold:
  "comic_bullets_loop E x bs st =
     fold (draw_item E x) (map (\<lambda>b. (''Helvetica'', [bullet_glyph, 32] @ strip b)) bs) st"
  by (induction E x bs st rule: comic_bullets_loop.induct) (auto simp: draw_item_def split: prod.splits)

lemma comic_publisher_fold:
  "comic_publisher E x p st =
     fold (draw_item E x)
       (if is_blank p then []
        else [(''Helvetica-Oblique'', [bullet_glyph] @ ustr '' Publisher: '' @ strip p)]) st"
  by (simp add: comic_publisher_def draw_item_def strip_Nil_iff is_blank_def split: prod.splits)

lemma comic_body_fold:
  "comic_body E x b1' b2' b3' p (c, y) =
     fold (draw_item E x) (body_items b1' b2' b3' p) (c @ [SetFont ''Helvetica'' 11], y)"
  unfolding comic_body_def comic_bullets_def comic_bullets_loop_fold comic_publisher_fold body_items_def
    keep_bullet_eq
  by (simp del: filter.simps)

lemma fold_draw_item_lines:
  "drawn_lines (fst (fold (draw_item E x) items st)) =
     drawn_lines (fst st) @
     concat (map (\<lambda>it. greedy_lines (\<lambda>s. stringWidth E s (fst it) 11 \<le> MAX_TEXT_W) [] (split (snd it))) items)"
proof (induction items arbitrary: st)
  case Nil
  then show ?case by simp
next
  case (Cons it items)
  have "drawn_lines (fst (draw_item E x it st)) =
          drawn_lines (fst st) @ greedy_lines (\<lambda>s. stringWidth E s (fst it) 11 \<le> MAX_TEXT_W) [] (split (snd it))"
    using wrap_text_lines [of E "fst st" "snd it" x "snd st" MAX_TEXT_W 11 "fst it" 11]
    by (simp add: draw_item_def case_prod_beta)
  then show ?case using Cons.IH [of "draw_item E x it st"] by simp
qed

lemma drawn_lines_setfont: "drawn_lines (c @ [SetFont f n]) = drawn_lines c"
  by (simp add: drawn_lines_append)

lemma comic_bullets_blank:
  "is_blank b \<Longrightarrow> comic_bullets E x (bs1 @ b # bs2) st = comic_bullets E x (bs1 @ bs2) st"
  by (simp add: comic_bullets_def keep_bullet_iff)

lemma comic_publisher_blank: "is_blank p \<Longrightarrow> comic_publisher E x p st = st"
  by (simp add: comic_publisher_fold)

text \<open>
  Claim C9. In the comic label, a bullet field that is empty or whitespace-only contributes
  nothing: with or without it the bullets leave the same canvas and the same cursor; a
  blank publisher leaves the canvas and the cursor unchanged. The body of the label is the
  sequence of the non-blank bullets, in order, then the non-blank publisher, each stripped,
  prefixed with the bullet glyph and wrapped; the lines it draws are the wrapped lines of
  these items, in this order. When all four fields are blank the body only selects the
  font.
\<close>

theorem comic_blank_fields_skipped:
  "(is_blank b \<longrightarrow> comic_bullets E x (bs1 @ b # bs2) st = comic_bullets E x (bs1 @ bs2) st) \<and>
   (is_blank p \<longrightarrow> comic_publisher E x p st = st) \<and>
   comic_body E x b1' b2' b3' p (c, y) =
     fold (draw_item E x) (body_items b1' b2' b3' p) (c @ [SetFont ''Helvetica'' 11], y) \<and>
   drawn_lines (fst (comic_body E x b1' b2' b3' p (c, y))) =
     drawn_lines c @
     concat (map (\<lambda>it. greedy_lines (\<lambda>s. stringWidth E s (fst it) 11 \<le> MAX_TEXT_W) [] (split (snd it)))
               (body_items b1' b2' b3' p)) \<and>
   (is_blank b1' \<and> is_blank b2' \<and> is_blank b3' \<and> is_blank p \<longrightarrow>
      comic_body E x b1' b2' b3' p (c, y) = (c @ [SetFont ''Helvetica'' 11], y))"
proof -
  have "drawn_lines (fst (comic_body E x b1' b2' b3' p (c, y))) =
     drawn_lines c @
     concat (map (\<lambda>it. greedy_lines (\<lambda>s. stringWidth E s (fst it) 11 \<le> MAX_TEXT_W) [] (split (snd it)))
               (body_items b1' b2' b3' p))"
    unfolding comic_body_fold fold_draw_item_lines by (simp add: drawn_lines_setfont)
  moreover have "is_blank b1' \<and> is_blank b2' \<and> is_blank b3' \<and> is_blank p \<longrightarrow>
      comic_body E x b1' b2' b3' p (c, y) = (c @ [SetFont ''Helvetica'' 11], y)"
    unfolding comic_body_fold by (simp add: body_items_def)
  ultimately show ?thesis
    using comic_bullets_blank [of b E x bs1 bs2 st] comic_publisher_blank [of p E x st]
      comic_body_fold [of E x b1' b2' b3' p c y]
    by blast
qed

text \<open>
  The bullets \<^verbatim>\<open>Year One\<close>, a space and the empty string, and the publisher \<^verbatim>\<open>DC\<close> between
  spaces: two lines are drawn.
\<close>

theorem comic_blank_fields_skipped_witness:
  "is_blank (ustr '' '') \<and> is_blank [] \<and>
   comic_bullets sample_env 18 ([ustr ''Year One''] @ ustr '' '' # [[]]) ([], 184) =
     comic_bullets sample_env 18 ([ustr ''Year One''] @ [[]]) ([], 184) \<and>
   comic_publisher sample_env 18 (ustr '' '') ([], 184) = ([], 184) \<and>
   drawn_lines (fst (comic_body sample_env 18 (ustr ''Year One'') (ustr '' '') [] (ustr '' DC '') ([], 184))) =
     [[8226, 32] @ ustr ''Year One'', [8226] @ ustr '' Publisher: DC'']"
proof -
  have b: "is_blank (ustr '' '')" "is_blank []"
    by (simp_all add: is_blank_def ustr_def is_space_def)
  have nb: "\<not> is_blank (ustr ''Year One'')" "\<not> is_blank (ustr '' DC '')"
    by (simp_all add: is_blank_def ustr_def is_space_def)
  have items: "body_items (ustr ''Year One'') (ustr '' '') [] (ustr '' DC '') =
      [(''Helvetica'', [8226, 32] @ ustr ''Year One''),
       (''Helvetica-Oblique'', [8226] @ ustr '' Publisher: DC'')]"
    using b nb by (simp add: body_items_def) (simp add: bullet_glyph_def ustr_def strip_def is_space_def)
  have lines: "concat (map (\<lambda>it. greedy_lines (\<lambda>s. stringWidth sample_env s (fst it) 11 \<le> MAX_TEXT_W) []
                      (split (snd it)))
      [(''Helvetica'', [8226, 32] @ ustr ''Year One''),
       (''Helvetica-Oblique'', [8226] @ ustr '' Publisher: DC'')]) =
      [[8226, 32] @ ustr ''Year One'', [8226] @ ustr '' Publisher: DC'']"
    by (simp add: split_def ustr_def is_space_def join_word_def sample_env_def MAX_TEXT_W_def
        comic_PAGE_W_def MARGIN_def inch_def)
  note t = comic_blank_fields_skipped [where E = sample_env and x = 18 and b = "ustr '' ''"
      and ?bs1.0 = "[ustr ''Year One'']" and ?bs2.0 = "[[]]" and st = "([], 184)"
      and ?b1'.0 = "ustr ''Year One''" and ?b2'.0 = "ustr '' ''" and ?b3'.0 = "[]" and c = "[]"
      and y = 184]
  from t [of "ustr '' ''"] b have "comic_bullets sample_env 18 ([ustr ''Year One''] @ ustr '' '' # [[]]) ([], 184) =
     comic_bullets sample_env 18 ([ustr ''Year One''] @ [[]]) ([], 184)"
    and "comic_publisher sample_env 18 (ustr '' '') ([], 184) = ([], 184)"
    by blast+
  moreover from t [of "ustr '' DC ''"]
  have "drawn_lines (fst (comic_body sample_env 18 (ustr ''Year One'') (ustr '' '') [] (ustr '' DC '') ([], 184))) =
     drawn_lines [] @
     concat (map (\<lambda>it. greedy_lines (\<lambda>s. stringWidth sample_env s (fst it) 11 \<le> MAX_TEXT_W) []
                      (split (snd it)))
       (body_items (ustr ''Year One'') (ustr '' '') [] (ustr '' DC '')))"
    by blast
  then have "drawn_lines (fst (comic_body sample_env 18 (ustr ''Year One'') (ustr '' '') [] (ustr '' DC '') ([], 184))) =
     [[8226, 32] @ ustr ''Year One'', [8226] @ ustr '' Publisher: DC'']"
    unfolding items lines by simp
  ultimately show ?thesis using b by blast
qed

subsection \<open>Comic labels: character normalisation\<close>

lemma normalize_text_map: "normalize_text s = map norm_char s"
  by (simp add: normalize_text_def replace_def norm_char_def Let_def)

lemma norm_char_idem: "norm_char (norm_char ch) = norm_char ch"
  by (simp add: norm_char_def)

lemma ascii_variant_normalize: "ascii_variant s s' \<Longrightarrow> normalize_text s' = normalize_text s"
  unfolding ascii_variant_def normalize_text_map
  by (induction rule: list_all2_induct) (auto simp: norm_char_idem)

lemma rows_variant_normalize:
  "list_all2 ascii_variant row row' \<Longrightarrow> map normalize_text row' = map normalize_text row"
  by (induction rule: list_all2_induct) (auto simp: ascii_variant_normalize)

lemma comic_draw_label_normalized:
  "map normalize_text row' = map normalize_text row \<Longrightarrow>
   comic_draw_label E c row' = comic_draw_label E c row"
  by (simp add: comic_draw_label_def)

text \<open>
  Claim C10. \<^verbatim>\<open>normalize_text\<close> maps every character of a field through the
  normalisation: U+2011, U+2013, U+2014 and U+2010 to the hyphen-minus, U+00A0 to the
  space, every other character to itself. A comic label uses its fields only normalised:
  drawing a record and drawing the record of its normalised fields give the same result;
  consequently a record in which any of these characters, in any field, are replaced by
  their ASCII replacements gives the same operations (or the same error).
\<close>

theorem comic_normalization:
  "normalize_text s = map norm_char s \<and>
   norm_char 8209 = 45 \<and> norm_char 8211 = 45 \<and> norm_char 8212 = 45 \<and> norm_char 8208 = 45 \<and>
   norm_char 160 = 32 \<and>
   (ch \<noteq> 8209 \<and> ch \<noteq> 8211 \<and> ch \<noteq> 8212 \<and> ch \<noteq> 8208 \<and> ch \<noteq> 160 \<longrightarrow> norm_char ch = ch) \<and>
   comic_draw_label E c (map normalize_text row) = comic_draw_label E c row \<and>
   (list_all2 ascii_variant row row' \<longrightarrow> comic_draw_label E c row' = comic_draw_label E c row)"
proof -
  have "map normalize_text (map normalize_text row) = map normalize_text row"
    by (simp add: normalize_text_map norm_char_idem)
  then have "comic_draw_label E c (map normalize_text row) = comic_draw_label E c row"
    by (rule comic_draw_label_normalized)
  moreover have "list_all2 ascii_variant row row' \<longrightarrow> comic_draw_label E c row' = comic_draw_label E c row"
    using rows_variant_normalize comic_draw_label_normalized by blast
  ultimately show ?thesis
    by (simp add: normalize_text_map norm_char_def)
qed

text \<open>
  A title with an en dash, a bullet that is a non-breaking space: the same label as with
  a hyphen-minus and a space.
\<close>

theorem comic_normalization_witness:
  "list_all2 ascii_variant dash_row ascii_row \<and>
   normalize_text [66, 8211, 160, 77] = [66, 45, 32, 77] \<and>
   comic_draw_label sample_env [] ascii_row = comic_draw_label sample_env [] dash_row"
proof -
  have v: "list_all2 ascii_variant dash_row ascii_row"
    by (simp add: dash_row_def ascii_row_def ascii_variant_def norm_char_def list_all2_same)
  have n: "normalize_text [66, 8211, 160, 77] = [66, 45, 32, 77]"
    by (simp add: normalize_text_def replace_def)
  from comic_normalization [of "[]" 0 sample_env "[]" dash_row ascii_row] v n show ?thesis by blast
qed

end
